theory Spec2Isabelle
  imports Main "HOL-Library.Multiset"
begin

section \<open>The data model of the service manager (service.go)\<close>

text \<open>
  The lifecycle states of the manager, in the order of the Go constant block
  (\<^verbatim>\<open>Unconfigured ManagerStateEnum = iota\<close> and the five that follow it).
\<close>

datatype ManagerStateEnum = Unconfigured | New | Running | Restarting | Dying | Dead

text \<open>
  The three actions of the generation of the package that \<^verbatim>\<open>service.go\<close> is written
  against: \<^verbatim>\<open>GracefulContinue\<close>, \<^verbatim>\<open>GracefulRestart\<close>, \<^verbatim>\<open>GracefulStop\<close>. The Go type is
  \<^verbatim>\<open>uint8\<close>; the model has the three named values only.
\<close>

datatype GracefulAction = GracefulContinue | GracefulRestart | GracefulStop

text \<open>
  A Go \<^verbatim>\<open>error\<close> is an interface value: \<open>None\<close> is \<^verbatim>\<open>nil\<close>, \<open>Some msg\<close> a non-nil
  error. A context made by \<^verbatim>\<open>context.WithCancel\<close> is named by the number of contexts
  made before it; the cancel function stored in the manager is named by the context it
  cancels.
\<close>

type_synonym error = "string option"

type_synonym ctx = nat

text \<open>
  The struct \<^verbatim>\<open>ServiceManager\<close>. The mutex is left out: every step of the model below is
  one critical section or one channel operation. \<open>waitForIteratorDone\<close> is the content
  of the buffered channel \<^verbatim>\<open>make(chan error, 1)\<close>, oldest value first. A signaler is
  any value of the type parameter; two registered signalers are the same signaler when
  they are equal.
\<close>

record 'sig ServiceManager =
  signalers :: "'sig list"
  state :: ManagerStateEnum
  cancelFunc :: ctx
  waitForIteratorDone :: "error list"

text \<open>\<^verbatim>\<open>SignalControl\<close>: the callback a signaler pushes, called with the manager.\<close>

type_synonym 'sig SignalControl = "'sig ServiceManager \<Rightarrow> GracefulAction"

subsection \<open>removeSignaler\<close>

text \<open>
  \<^verbatim>\<open>removeSignaler(index int) bool\<close>: when \<^verbatim>\<open>index < len(s.signalers)\<close> the last element
  is stored at \<open>index\<close> and the slice is cut by one; the function returns \<^verbatim>\<open>false\<close> on
  every path. A negative index passes the guard and the slice store panics (index out of
  range): that is the result \<open>None\<close>.
\<close>

definition removeSignaler ::
  "int \<Rightarrow> 'sig ServiceManager \<Rightarrow> (bool \<times> 'sig ServiceManager) option" where
  "removeSignaler index s =
     (let n = length (signalers s) in
      if index < int n then
        (if index < 0 then None
         else Some (False,
           s\<lparr>signalers := take (n - 1) ((signalers s)[nat index := signalers s ! (n - 1)])\<rparr>))
      else Some (False, s))"

section \<open>The running system: Wait, the worker goroutine, the channels\<close>

text \<open>
  \<^verbatim>\<open>Start\<close> runs the caller's routine in a goroutine while \<^verbatim>\<open>Wait\<close> runs on the caller's
  thread; both work on the same manager. The model is a machine whose state holds the
  manager, the local variables of the two threads and the place each thread is at, and
  whose steps are the moments at which a thread comes back from something it waits for:
  the routine returning, a context being done, \<^verbatim>\<open>reflect.Select\<close> returning, a channel
  operation completing. What a thread does between two such moments is one step.
  The routine and the signalers are not code of the package: what they do is the
  schedule, a list of events.
\<close>

text \<open>
  What the type switch of \<^verbatim>\<open>Wait\<close> sees in \<^verbatim>\<open>recv.Interface()\<close>: a value whose dynamic
  type is \<^verbatim>\<open>SignalControl\<close> (\<open>None\<close> is the nil func, whose call panics), a value whose
  dynamic type implements \<^verbatim>\<open>error\<close>, or the nil interface. A nil \<^verbatim>\<open>error\<close> taken out of
  a \<^verbatim>\<open>chan error\<close> by reflection is an interface-kind \<^verbatim>\<open>Value\<close> holding nothing, and its
  \<^verbatim>\<open>Interface()\<close> is the nil interface, which has no dynamic type: in a Go type switch it
  is matched by \<^verbatim>\<open>case nil\<close> and \<^verbatim>\<open>default\<close> only, not by \<^verbatim>\<open>case error\<close>.
\<close>

datatype 'sig recv =
    IsSignalControl "'sig SignalControl option"
  | IsError string
  | NilInterface

definition interface_of_error :: "error \<Rightarrow> 'sig recv" where
  "interface_of_error e = (case e of None \<Rightarrow> NilInterface | Some msg \<Rightarrow> IsError msg)"

text \<open>The channels \<^verbatim>\<open>buildSelectCases\<close> puts into the receive set, in its order.\<close>

datatype 'sig chan = SelectOf 'sig | IteratorDone

definition buildSelectCases :: "'sig ServiceManager \<Rightarrow> 'sig chan list" where
  "buildSelectCases s = map SelectOf (signalers s) @ [IteratorDone]"

text \<open>
  What a thread does that another party can see, logged in program order, one log for
  \<^verbatim>\<open>Wait\<close> and one for the goroutine.
\<close>

datatype 'sig effect =
    SetState ManagerStateEnum
  | CancelCtx ctx
  | Cancel 'sig
  | Receive error
  | NewContext ctx
  | Invoke ctx
  | Send error

text \<open>
  Where the goroutine of \<^verbatim>\<open>Start\<close> is: not yet running, inside \<^verbatim>\<open>routine(subCtx)\<close>, in
  the \<^verbatim>\<open>select\<close> on \<^verbatim>\<open>subCtx.Done()\<close>, at the send \<^verbatim>\<open>s.waitForIteratorDone <- err\<close> after
  the loop, or finished. Where \<^verbatim>\<open>Wait\<close> is: in \<^verbatim>\<open>reflect.Select\<close>, in the receive
  \<^verbatim>\<open>err = <-s.waitForIteratorDone\<close> of the stop branch, returned with its result, or
  stopped by a runtime panic.
\<close>

datatype worker_pc = Spawned | InRoutine | AwaitingDone | Sending | Ended

datatype wait_pc = Selecting | Receiving | Returned error | Panicked

record 'sig system =
  sm :: "'sig ServiceManager"
  done_ctxs :: "ctx list"
  contexts :: nat
  subCtx :: ctx
  err :: error
  worker :: worker_pc
  waiting :: wait_pc
  wait_trace :: "'sig effect list"
  worker_trace :: "'sig effect list"

text \<open>
  \<open>done_ctxs\<close> lists the contexts whose cancel function has been called, \<open>contexts\<close>
  counts the contexts made so far; \<open>subCtx\<close> and \<open>err\<close> are the goroutine's variables
  of these names.
\<close>

subsection \<open>The methods, as used by either thread\<close>

datatype thread = ByWait | ByWorker

definition logged :: "thread \<Rightarrow> 'sig effect list \<Rightarrow> 'sig system \<Rightarrow> 'sig system" where
  "logged th es sys =
     (case th of
        ByWait \<Rightarrow> sys\<lparr>wait_trace := wait_trace sys @ es\<rparr>
      | ByWorker \<Rightarrow> sys\<lparr>worker_trace := worker_trace sys @ es\<rparr>)"

definition setState :: "thread \<Rightarrow> ManagerStateEnum \<Rightarrow> 'sig system \<Rightarrow> 'sig system" where
  "setState th st sys = logged th [SetState st] (sys\<lparr>sm := (sm sys)\<lparr>state := st\<rparr>\<rparr>)"

text \<open>\<^verbatim>\<open>s.cancelFunc()\<close>: the context the stored function belongs to is done from now on.\<close>

definition call_cancelFunc :: "thread \<Rightarrow> 'sig system \<Rightarrow> 'sig system" where
  "call_cancelFunc th sys =
     logged th [CancelCtx (cancelFunc (sm sys))]
       (sys\<lparr>done_ctxs := done_ctxs sys @ [cancelFunc (sm sys)]\<rparr>)"

text \<open>\<^verbatim>\<open>cancelSignalers\<close>: \<^verbatim>\<open>Cancel()\<close> on each element of \<^verbatim>\<open>s.signalers\<close>, in order.\<close>

definition cancelSignalers :: "'sig system \<Rightarrow> 'sig system" where
  "cancelSignalers sys = logged ByWait (map Cancel (signalers (sm sys))) sys"

subsection \<open>Start and the goroutine\<close>

text \<open>
  \<^verbatim>\<open>NewServiceManager\<close>, the \<^verbatim>\<open>AddSignaler\<close> calls that register \<open>sigs\<close> in this order,
  and \<^verbatim>\<open>Start\<close>: the first context is made, its cancel function stored, the goroutine
  spawned. The caller then enters \<^verbatim>\<open>Wait\<close> (as \<^verbatim>\<open>Run\<close> does), which builds its cases and
  goes into \<^verbatim>\<open>reflect.Select\<close>. Calling \<^verbatim>\<open>Wait\<close> with no \<^verbatim>\<open>Start\<close> before it, where
  \<^verbatim>\<open>cancelFunc\<close> is nil, is outside the model.
\<close>

definition Start :: "'sig list \<Rightarrow> 'sig system" where
  "Start sigs =
     \<lparr>sm = \<lparr>signalers = sigs, state = New, cancelFunc = 0, waitForIteratorDone = []\<rparr>,
      done_ctxs = [], contexts = 1, subCtx = 0, err = None,
      worker = Spawned, waiting = Selecting,
      wait_trace = [], worker_trace = [NewContext 0]\<rparr>"

text \<open>The goroutine calls \<^verbatim>\<open>routine(subCtx)\<close>: the top of its \<^verbatim>\<open>for running\<close> loop.\<close>

definition invoke :: "'sig system \<Rightarrow> 'sig system" where
  "invoke sys = logged ByWorker [Invoke (subCtx sys)] (sys\<lparr>worker := InRoutine\<rparr>)"

text \<open>The goroutine's first statement, \<^verbatim>\<open>s.setState(Running)\<close>, and the first call.\<close>

definition goroutine_begins :: "'sig system \<Rightarrow> 'sig system" where
  "goroutine_begins sys = invoke (setState ByWorker Running sys)"

text \<open>
  \<^verbatim>\<open>action, err = routine(subCtx)\<close> has returned: the \<^verbatim>\<open>switch action\<close> of the loop body.
  Leaving the loop (\<^verbatim>\<open>running = false\<close>) brings the goroutine to the send after the
  loop. The error is stored and not looked at.
\<close>

definition routine_returned :: "GracefulAction \<Rightarrow> error \<Rightarrow> 'sig system \<Rightarrow> 'sig system" where
  "routine_returned action e sys =
     (let sys1 = sys\<lparr>err := e\<rparr> in
      case action of
        GracefulContinue \<Rightarrow>
          if state (sm sys1) \<noteq> Running then sys1\<lparr>worker := Sending\<rparr>
          else sys1\<lparr>worker := AwaitingDone\<rparr>
      | GracefulStop \<Rightarrow> sys1\<lparr>worker := Sending\<rparr>
      | GracefulRestart \<Rightarrow> invoke sys1)"

text \<open>
  \<^verbatim>\<open>case <-subCtx.Done():\<close> has fired: the \<^verbatim>\<open>switch s.State()\<close>. In state \<open>Restarting\<close>
  the stored cancel function is called, a new context is made and stored, and
  \<^verbatim>\<open>continue\<close> leads to the next call of the routine. The state is not written.
\<close>

definition context_done :: "'sig system \<Rightarrow> 'sig system" where
  "context_done sys =
     (case state (sm sys) of
        Restarting \<Rightarrow>
          (let sys1 = call_cancelFunc ByWorker sys;
               c = contexts sys1;
               sys2 = logged ByWorker [NewContext c]
                        (sys1\<lparr>contexts := Suc c, subCtx := c,
                              sm := (sm sys1)\<lparr>cancelFunc := c\<rparr>\<rparr>)
           in invoke sys2)
      | Dying \<Rightarrow> sys\<lparr>worker := Sending\<rparr>
      | _ \<Rightarrow> sys\<lparr>worker := Sending\<rparr>)"

text \<open>\<^verbatim>\<open>s.waitForIteratorDone <- err\<close> completes (the buffer had room); the goroutine ends.\<close>

definition send_done :: "'sig system \<Rightarrow> 'sig system" where
  "send_done sys =
     logged ByWorker [Send (err sys)]
       (sys\<lparr>sm := (sm sys)\<lparr>waitForIteratorDone := waitForIteratorDone (sm sys) @ [err sys]\<rparr>,
            worker := Ended\<rparr>)"

subsection \<open>Wait\<close>

text \<open>The statements after the loop of \<^verbatim>\<open>Wait\<close>: \<^verbatim>\<open>s.setState(Dead)\<close> and \<^verbatim>\<open>return\<close>.\<close>

definition Wait_return :: "error \<Rightarrow> 'sig system \<Rightarrow> 'sig system" where
  "Wait_return e sys = (setState ByWait Dead sys)\<lparr>waiting := Returned e\<rparr>"

text \<open>
  One pass through the body of the loop of \<^verbatim>\<open>Wait\<close>, from the values
  \<^verbatim>\<open>chosen, recv, ok\<close> that \<^verbatim>\<open>reflect.Select\<close> returned. The named result \<^verbatim>\<open>err\<close> of
  \<^verbatim>\<open>Wait\<close> is nil until a branch assigns it, so the \<^verbatim>\<open>break\<close> of the first branch returns
  nil. In the stop branch the pass stops at the receive from the completion channel. A
  nil interface matches neither case of the type switch, which has no default: nothing
  is done and the loop goes on.
\<close>

definition Wait_body :: "nat \<Rightarrow> 'sig recv \<Rightarrow> bool \<Rightarrow> 'sig system \<Rightarrow> 'sig system" where
  "Wait_body chosen rcv ok sys =
     (if \<not> ok then
        (case removeSignaler (int chosen) (sm sys) of
           None \<Rightarrow> sys\<lparr>waiting := Panicked\<rparr>
         | Some (_, s') \<Rightarrow>
             if length (signalers s') = 0 then Wait_return None (sys\<lparr>sm := s'\<rparr>)
             else sys\<lparr>sm := s'\<rparr>)
      else
        (case rcv of
           IsSignalControl None \<Rightarrow> sys\<lparr>waiting := Panicked\<rparr>
         | IsSignalControl (Some chanType) \<Rightarrow>
             (case chanType (sm sys) of
                GracefulContinue \<Rightarrow> sys
              | GracefulRestart \<Rightarrow> call_cancelFunc ByWait (setState ByWait Restarting sys)
              | GracefulStop \<Rightarrow>
                  (cancelSignalers (call_cancelFunc ByWait (setState ByWait Dying sys)))
                    \<lparr>waiting := Receiving\<rparr>)
         | IsError msg \<Rightarrow>
             Wait_return (Some msg) (call_cancelFunc ByWait (cancelSignalers sys))
         | NilInterface \<Rightarrow> sys))"

text \<open>
  The receive of the stop branch has completed with the oldest value of the buffer:
  \<^verbatim>\<open>err = <-s.waitForIteratorDone\<close>, \<^verbatim>\<open>running = false\<close>, and the statements after the loop.
\<close>

definition received :: "error \<Rightarrow> error list \<Rightarrow> 'sig system \<Rightarrow> 'sig system" where
  "received v rest sys =
     Wait_return v
       (logged ByWait [Receive v] (sys\<lparr>sm := (sm sys)\<lparr>waitForIteratorDone := rest\<rparr>\<rparr>))"

subsection \<open>Events and steps\<close>

text \<open>
  What the channel of a signaler hands to \<^verbatim>\<open>reflect.Select\<close>: nothing any more (it was
  closed), or the value its owner pushed.
\<close>

datatype 'sig delivery = ChannelClosed | Delivers "'sig SignalControl option"

datatype 'sig event =
    GoroutineStarts
  | RoutineReturns GracefulAction error
  | ContextDone
  | SendCompletes
  | SelectSignaler nat "'sig delivery"
  | SelectDone
  | RecvCompletes

text \<open>
  \<^verbatim>\<open>reflect.Select(cases)\<close> for the case the schedule names: the triple
  \<^verbatim>\<open>(chosen, recv, ok)\<close>, and the manager with the value taken out of the completion
  channel when that was the case chosen. \<open>None\<close> when the select cannot return so: the
  index is not a signaler's case, or the completion channel is empty. The cases are
  those of \<^verbatim>\<open>buildSelectCases\<close> for the registry as it is: \<^verbatim>\<open>Wait\<close> rebuilds them after
  each removal and nothing else changes the registry.
\<close>

definition reflect_Select ::
  "'sig chan list \<Rightarrow> 'sig event \<Rightarrow> 'sig ServiceManager \<Rightarrow>
     ((nat \<times> 'sig recv \<times> bool) \<times> 'sig ServiceManager) option" where
  "reflect_Select cases ev s =
     (case ev of
        SelectSignaler i d \<Rightarrow>
          if i < length cases - 1 then
            (case d of
               ChannelClosed \<Rightarrow> Some ((i, IsSignalControl None, False), s)
             | Delivers f \<Rightarrow> Some ((i, IsSignalControl f, True), s))
          else None
      | SelectDone \<Rightarrow>
          (case waitForIteratorDone s of
             [] \<Rightarrow> None
           | v # rest \<Rightarrow>
               Some ((length cases - 1, interface_of_error v, True),
                     s\<lparr>waitForIteratorDone := rest\<rparr>))
      | _ \<Rightarrow> None)"

text \<open>
  One step of the system. An event that cannot happen in the state (the thread is not
  at that place, the context is not done, the buffer is full or empty) gives \<open>None\<close>.
  The completion channel has capacity 1.
\<close>

definition step :: "'sig system \<Rightarrow> 'sig event \<Rightarrow> 'sig system option" where
  "step sys ev =
     (case ev of
        GoroutineStarts \<Rightarrow>
          if worker sys = Spawned then Some (goroutine_begins sys) else None
      | RoutineReturns action e \<Rightarrow>
          if worker sys = InRoutine then Some (routine_returned action e sys) else None
      | ContextDone \<Rightarrow>
          if worker sys = AwaitingDone \<and> subCtx sys \<in> set (done_ctxs sys)
          then Some (context_done sys) else None
      | SendCompletes \<Rightarrow>
          if worker sys = Sending \<and> length (waitForIteratorDone (sm sys)) < 1
          then Some (send_done sys) else None
      | RecvCompletes \<Rightarrow>
          if waiting sys = Receiving then
            (case waitForIteratorDone (sm sys) of
               [] \<Rightarrow> None
             | v # rest \<Rightarrow> Some (received v rest sys))
          else None
      | _ \<Rightarrow>
          if waiting sys = Selecting then
            (case reflect_Select (buildSelectCases (sm sys)) ev (sm sys) of
               None \<Rightarrow> None
             | Some ((chosen, rcv, ok), s') \<Rightarrow> Some (Wait_body chosen rcv ok (sys\<lparr>sm := s'\<rparr>)))
          else None)"

fun run :: "'sig system \<Rightarrow> 'sig event list \<Rightarrow> 'sig system option" where
  "run sys [] = Some sys"
| "run sys (ev # evs) = (case step sys ev of None \<Rightarrow> None | Some sys' \<Rightarrow> run sys' evs)"

subsection \<open>The control functions of the two signalers of the package\<close>

text \<open>
  \<^verbatim>\<open>ContextSignal.Stop\<close> (context.go) pushes a function that returns \<^verbatim>\<open>GracefulStop\<close>.
  The goroutine of \<^verbatim>\<open>NewSignals\<close> (signals.go) pushes, for an operating system signal, a
  function that looks the signal up in the map of actions; a signal that is not a key
  yields the zero value of \<^verbatim>\<open>GracefulAction\<close>, which is \<^verbatim>\<open>GracefulContinue\<close>.
  \<^verbatim>\<open>NewDefaultSignals\<close> maps the interrupt and the termination signal to stop and
  the hangup to restart.
\<close>

definition ContextSignal_Stop :: "'sig SignalControl" where
  "ContextSignal_Stop manager = GracefulStop"

datatype os_Signal = SIGHUP | SIGINT | SIGTERM | SIGUSR1

definition Signals_control :: "(os_Signal \<rightharpoonup> GracefulAction) \<Rightarrow> os_Signal \<Rightarrow> 'sig SignalControl" where
  "Signals_control actions gotSignal manager =
     (case actions gotSignal of None \<Rightarrow> GracefulContinue | Some a \<Rightarrow> a)"

definition commonSignals :: "os_Signal \<rightharpoonup> GracefulAction" where
  "commonSignals = [SIGINT \<mapsto> GracefulStop, SIGTERM \<mapsto> GracefulStop, SIGHUP \<mapsto> GracefulRestart]"

subsection \<open>Reading the logs\<close>

text \<open>The signalers \<^verbatim>\<open>Wait\<close> has called \<^verbatim>\<open>Cancel()\<close> on, in the order of the calls.\<close>

fun cancelled_signalers :: "'sig effect list \<Rightarrow> 'sig list" where
  "cancelled_signalers [] = []"
| "cancelled_signalers (Cancel x # es) = x # cancelled_signalers es"
| "cancelled_signalers (_ # es) = cancelled_signalers es"



text \<open>
  Two invariants of the system, used in the proofs below. The registry never holds a
  signaler twice, and \<^verbatim>\<open>Wait\<close> has cancelled nobody while it selects and exactly the
  registry once it has left the loop. Until the goroutine has ended, the completion
  channel is empty and nothing was sent; once it has ended, it has sent one value, its
  \<open>err\<close>.
\<close>

definition teardown_inv :: "'sig system \<Rightarrow> bool" where
  "teardown_inv sys =
     (distinct (signalers (sm sys)) \<and>
      (if waiting sys = Selecting \<or> waiting sys = Panicked
       then cancelled_signalers (wait_trace sys) = []
       else cancelled_signalers (wait_trace sys) = signalers (sm sys)))"


text \<open>
  A third invariant: every context that is done was made before, and the cancel function
  stored in the manager is the one of the goroutine's current context.
\<close>

definition ctx_inv :: "'sig system \<Rightarrow> bool" where
  "ctx_inv sys =
     (list_all (\<lambda>c. c < contexts sys) (done_ctxs sys) \<and>
      subCtx sys < contexts sys \<and> cancelFunc (sm sys) = subCtx sys)"

section \<open>Properties of removeSignaler\<close>

lemma removeSignaler_out_of_range:
  "int (length (signalers s)) \<le> i \<Longrightarrow> removeSignaler i s = Some (False, s)"
  by (simp add: removeSignaler_def Let_def)

lemma swap_remove_length:
  "i < length xs \<Longrightarrow> length (take (length xs - 1) (xs[i := xs ! (length xs - 1)])) = length xs - 1"
  by simp

lemma swap_remove_nth:
  assumes "i < length xs" and "j < length xs - 1"
  shows "take (length xs - 1) (xs[i := xs ! (length xs - 1)]) ! j
           = (if j = i then last xs else xs ! j)"
proof -
  from assms have ne: "xs \<noteq> []" by auto
  have "take (length xs - 1) (xs[i := xs ! (length xs - 1)]) ! j
          = (xs[i := xs ! (length xs - 1)]) ! j"
    using assms by simp
  also have "\<dots> = (if j = i then xs ! (length xs - 1) else xs ! j)"
    using assms by (simp add: nth_list_update)
  finally show ?thesis
    using ne by (simp add: last_conv_nth)
qed

lemma swap_remove_mset:
  assumes "i < length xs"
  shows "mset (take (length xs - 1) (xs[i := xs ! (length xs - 1)])) = mset xs - {#xs ! i#}"
proof -
  from assms have ne: "xs \<noteq> []" by auto
  then obtain ys y where xs: "xs = ys @ [y]"
    by (metis append_butlast_last_id)
  show ?thesis
  proof (cases "i < length ys")
    case True
    then have "take (length xs - 1) (xs[i := xs ! (length xs - 1)]) = ys[i := y]"
      by (simp add: xs list_update_append nth_append)
    moreover have "mset (ys[i := y]) = mset ys - {#ys ! i#} + {#y#}"
      using True by (simp add: mset_update)
    moreover have "mset xs - {#xs ! i#} = mset ys - {#ys ! i#} + {#y#}"
      using True by (simp add: xs nth_append)
    ultimately show ?thesis by simp
  next
    case False
    with assms have "i = length ys" by (simp add: xs)
    then show ?thesis by (simp add: xs list_update_append nth_append)
  qed
qed

text \<open>
  Claim C9. For every signaler list and every index \<open>i\<close>: when \<open>i\<close> is at least the
  length of the list, \<open>removeSignaler i\<close> leaves the manager unchanged; when \<open>i\<close> is a
  valid index, the new list is one shorter, holds the last element of the old list at
  position \<open>i\<close> (when that position is still in the list), holds the old element at
  every other position, has lost exactly one occurrence of the element that was at
  position \<open>i\<close> and nothing else, and no other field of the manager changes. In both
  cases the function returns \<open>False\<close>.
\<close>

theorem removeSignaler_spec:
  "(int (length (signalers s)) \<le> i \<longrightarrow> removeSignaler i s = Some (False, s)) \<and>
   (0 \<le> i \<and> i < int (length (signalers s)) \<longrightarrow>
      (\<exists>s'. removeSignaler i s = Some (False, s') \<and>
            s' = s\<lparr>signalers := signalers s'\<rparr> \<and>
            length (signalers s') = length (signalers s) - 1 \<and>
            mset (signalers s') = mset (signalers s) - {#signalers s ! nat i#} \<and>
            (\<forall>j. j < length (signalers s') \<longrightarrow>
                 signalers s' ! j = (if j = nat i then last (signalers s) else signalers s ! j))))"
proof (intro conjI impI)
  assume "int (length (signalers s)) \<le> i"
  then show "removeSignaler i s = Some (False, s)"
    by (rule removeSignaler_out_of_range)
next
  assume valid: "0 \<le> i \<and> i < int (length (signalers s))"
  define xs where "xs = signalers s"
  define s' where "s' = s\<lparr>signalers := take (length xs - 1) (xs[nat i := xs ! (length xs - 1)])\<rparr>"
  from valid have k: "nat i < length xs" unfolding xs_def by linarith
  have run: "removeSignaler i s = Some (False, s')"
    using valid by (simp add: removeSignaler_def Let_def s'_def xs_def)
  have sig: "signalers s' = take (length xs - 1) (xs[nat i := xs ! (length xs - 1)])"
    by (simp add: s'_def)
  have frame: "s' = s\<lparr>signalers := signalers s'\<rparr>"
    by (simp add: s'_def)
  have len: "length (signalers s') = length xs - 1"
    unfolding sig using k by (rule swap_remove_length)
  have ms: "mset (signalers s') = mset xs - {#xs ! nat i#}"
    unfolding sig using k by (rule swap_remove_mset)
  have nth: "\<forall>j. j < length (signalers s') \<longrightarrow>
                 signalers s' ! j = (if j = nat i then last xs else xs ! j)"
  proof (intro allI impI)
    fix j assume "j < length (signalers s')"
    with len have "j < length xs - 1" by simp
    with k show "signalers s' ! j = (if j = nat i then last xs else xs ! j)"
      unfolding sig by (rule swap_remove_nth)
  qed
  show "\<exists>s'. removeSignaler i s = Some (False, s') \<and>
            s' = s\<lparr>signalers := signalers s'\<rparr> \<and>
            length (signalers s') = length (signalers s) - 1 \<and>
            mset (signalers s') = mset (signalers s) - {#signalers s ! nat i#} \<and>
            (\<forall>j. j < length (signalers s') \<longrightarrow>
                 signalers s' ! j = (if j = nat i then last (signalers s) else signalers s ! j))"
    using run frame len ms nth unfolding xs_def by blast
qed

text \<open>
  The theorem at a registry of four signalers: index 1 is valid (the last signaler, 40,
  takes the place of 20), index 4 is out of range.
\<close>

theorem removeSignaler_spec_witness:
  "(0::int) \<le> 1 \<and> (1::int) < int (length [10, 20, 30, 40::nat]) \<and>
   removeSignaler 1 \<lparr>signalers = [10, 20, 30, 40::nat], state = Running, cancelFunc = 0,
       waitForIteratorDone = []\<rparr>
     = Some (False, \<lparr>signalers = [10, 40, 30], state = Running, cancelFunc = 0,
         waitForIteratorDone = []\<rparr>) \<and>
   int (length [10, 20, 30, 40::nat]) \<le> 4 \<and>
   removeSignaler 4 \<lparr>signalers = [10, 20, 30, 40::nat], state = Running, cancelFunc = 0,
       waitForIteratorDone = []\<rparr>
     = Some (False, \<lparr>signalers = [10, 20, 30, 40::nat], state = Running, cancelFunc = 0,
         waitForIteratorDone = []\<rparr>)"
proof -
  let ?m = "\<lparr>signalers = [10, 20, 30, 40::nat], state = Running, cancelFunc = 0,
       waitForIteratorDone = []\<rparr>"
  have valid: "(0::int) \<le> 1 \<and> (1::int) < int (length (signalers ?m))" by simp
  have out: "int (length (signalers ?m)) \<le> 4" by simp
  from removeSignaler_spec [of ?m 1] valid
  obtain s' where run: "removeSignaler 1 ?m = Some (False, s')"
    and frame: "s' = ?m\<lparr>signalers := signalers s'\<rparr>"
    and len: "length (signalers s') = length (signalers ?m) - 1"
    and nth: "\<forall>j. j < length (signalers s') \<longrightarrow>
                signalers s' ! j = (if j = nat 1 then last (signalers ?m) else signalers ?m ! j)"
    by blast
  from len have l3: "length (signalers s') = 3" by simp
  from nth l3 have "signalers s' ! 0 = 10" "signalers s' ! 1 = 40" "signalers s' ! 2 = 30"
    by simp_all
  with l3 have "signalers s' = [10, 40, 30]"
    by (intro nth_equalityI) (auto simp: less_Suc_eq numeral_3_eq_3 numeral_2_eq_2)
  with frame have "s' = \<lparr>signalers = [10, 40, 30], state = Running, cancelFunc = 0,
         waitForIteratorDone = []\<rparr>"
    by simp
  with run have first: "removeSignaler 1 ?m
     = Some (False, \<lparr>signalers = [10, 40, 30], state = Running, cancelFunc = 0,
         waitForIteratorDone = []\<rparr>)"
    by simp
  from removeSignaler_spec [of ?m 4] out
  have second: "removeSignaler 4 ?m = Some (False, ?m)" by blast
  from valid out first second show ?thesis by simp
qed

text \<open>
  A registry that holds no signaler twice stays so when a signaler is removed, and
  removal adds nobody.
\<close>

lemma swap_remove_distinct:
  assumes "i < length xs" and "distinct xs"
  shows "distinct (take (length xs - 1) (xs[i := xs ! (length xs - 1)])) \<and>
         set (take (length xs - 1) (xs[i := xs ! (length xs - 1)])) \<subseteq> set xs"
proof -
  from assms have "xs \<noteq> []" by auto
  then obtain ys y where xs: "xs = ys @ [y]"
    by (metis append_butlast_last_id)
  show ?thesis
  proof (cases "i < length ys")
    case True
    then have eq: "take (length xs - 1) (xs[i := xs ! (length xs - 1)]) = ys[i := y]"
      by (simp add: xs list_update_append nth_append)
    from assms(2) have "distinct ys" "y \<notin> set ys" by (simp_all add: xs)
    then have "distinct (ys[i := y])" by (simp add: distinct_list_update)
    moreover have "set (ys[i := y]) \<subseteq> insert y (set ys)" by (rule set_update_subset_insert)
    ultimately show ?thesis unfolding eq by (auto simp: xs)
  next
    case False
    with assms(1) have "i = length ys" by (simp add: xs)
    then have "take (length xs - 1) (xs[i := xs ! (length xs - 1)]) = ys"
      by (simp add: xs list_update_append)
    with assms(2) show ?thesis by (auto simp: xs)
  qed
qed

lemma removeSignaler_distinct:
  assumes "removeSignaler i s = Some (b, s')" and "distinct (signalers s)"
  shows "distinct (signalers s') \<and> set (signalers s') \<subseteq> set (signalers s)"
proof (cases "i < int (length (signalers s))")
  case False
  with assms show ?thesis by (simp add: removeSignaler_def Let_def)
next
  case True
  with assms(1) have nonneg: "0 \<le> i"
    by (simp add: removeSignaler_def Let_def split: if_splits)
  with True have k: "nat i < length (signalers s)" by linarith
  from assms(1) True nonneg
  have "signalers s' = take (length (signalers s) - 1)
          ((signalers s)[nat i := signalers s ! (length (signalers s) - 1)])"
    by (auto simp: removeSignaler_def Let_def)
  with swap_remove_distinct [OF k assms(2)] show ?thesis by simp
qed

lemma removeSignaler_frame:
  assumes "removeSignaler i s = Some (b, s')"
  shows "state s' = state s \<and> cancelFunc s' = cancelFunc s \<and>
         waitForIteratorDone s' = waitForIteratorDone s \<and> b = False"
  using assms by (auto simp: removeSignaler_def Let_def split: if_splits)

section \<open>How the steps read\<close>

lemmas worker_defs = goroutine_begins_def routine_returned_def context_done_def send_done_def
  invoke_def setState_def call_cancelFunc_def logged_def

lemmas wait_defs = Wait_return_def received_def cancelSignalers_def
  setState_def call_cancelFunc_def logged_def

lemmas run_defs = Start_def step_def reflect_Select_def buildSelectCases_def
  interface_of_error_def Wait_body_def Wait_return_def received_def cancelSignalers_def
  goroutine_begins_def routine_returned_def context_done_def send_done_def
  invoke_def setState_def call_cancelFunc_def logged_def removeSignaler_def Let_def
  ContextSignal_Stop_def Signals_control_def commonSignals_def

lemma cancelled_signalers_append:
  "cancelled_signalers (xs @ ys) = cancelled_signalers xs @ cancelled_signalers ys"
  by (induction xs rule: cancelled_signalers.induct) simp_all

lemma cancelled_signalers_map_Cancel: "cancelled_signalers (map Cancel xs) = xs"
  by (induction xs) simp_all


subsection \<open>The branches of the loop body of Wait\<close>

lemma Wait_body_closed:
  "Wait_body chosen rcv False sys =
     (case removeSignaler (int chosen) (sm sys) of
        None \<Rightarrow> sys\<lparr>waiting := Panicked\<rparr>
      | Some (_, s') \<Rightarrow>
          if length (signalers s') = 0 then Wait_return None (sys\<lparr>sm := s'\<rparr>)
          else sys\<lparr>sm := s'\<rparr>)"
  by (simp add: Wait_body_def)

lemma Wait_body_control:
  "Wait_body chosen (IsSignalControl (Some f)) True sys =
     (case f (sm sys) of
        GracefulContinue \<Rightarrow> sys
      | GracefulRestart \<Rightarrow> call_cancelFunc ByWait (setState ByWait Restarting sys)
      | GracefulStop \<Rightarrow>
          (cancelSignalers (call_cancelFunc ByWait (setState ByWait Dying sys)))
            \<lparr>waiting := Receiving\<rparr>)"
  by (simp add: Wait_body_def)

lemma Wait_body_nil_func:
  "Wait_body chosen (IsSignalControl None) True sys = sys\<lparr>waiting := Panicked\<rparr>"
  by (simp add: Wait_body_def)

lemma Wait_body_error:
  "Wait_body chosen (IsError msg) True sys =
     Wait_return (Some msg) (call_cancelFunc ByWait (cancelSignalers sys))"
  by (simp add: Wait_body_def)

lemma Wait_body_nil:
  "Wait_body chosen NilInterface True sys = sys"
  by (simp add: Wait_body_def)

subsection \<open>What an enabled step was\<close>

lemma step_select_signaler:
  assumes "step sys (SelectSignaler i d) = Some sys'"
  shows "waiting sys = Selecting \<and> i < length (signalers (sm sys)) \<and>
         sys' = (case d of
                   ChannelClosed \<Rightarrow> Wait_body i (IsSignalControl None) False sys
                 | Delivers f \<Rightarrow> Wait_body i (IsSignalControl f) True sys)"
  using assms
  by (cases d) (simp_all add: step_def reflect_Select_def buildSelectCases_def split: if_splits)

lemma step_select_done:
  assumes "step sys SelectDone = Some sys'"
  shows "waiting sys = Selecting \<and>
         (\<exists>v rest. waitForIteratorDone (sm sys) = v # rest \<and>
            sys' = Wait_body (length (signalers (sm sys))) (interface_of_error v) True
                     (sys\<lparr>sm := (sm sys)\<lparr>waitForIteratorDone := rest\<rparr>\<rparr>))"
  using assms
  by (cases "waitForIteratorDone (sm sys)")
     (simp_all add: step_def reflect_Select_def buildSelectCases_def split: if_splits)

lemma step_recv:
  assumes "step sys RecvCompletes = Some sys'"
  shows "waiting sys = Receiving \<and>
         (\<exists>v rest. waitForIteratorDone (sm sys) = v # rest \<and> sys' = received v rest sys)"
  using assms
  by (cases "waitForIteratorDone (sm sys)") (simp_all add: step_def split: if_splits)

lemma step_stop:
  assumes "waiting sys = Selecting" and "i < length (signalers (sm sys))"
    and "f (sm sys) = GracefulStop"
  shows "step sys (SelectSignaler i (Delivers (Some f))) =
           Some ((cancelSignalers (call_cancelFunc ByWait (setState ByWait Dying sys)))
                   \<lparr>waiting := Receiving\<rparr>)"
  using assms
  by (simp add: step_def reflect_Select_def buildSelectCases_def Wait_body_control)

lemma step_recv_enabled:
  assumes "waiting sys = Receiving" and "waitForIteratorDone (sm sys) = v # rest"
  shows "step sys RecvCompletes = Some (received v rest sys)"
  using assms by (simp add: step_def)



lemma received_fields:
  "waiting (received v rest sys) = Returned v \<and>
   wait_trace (received v rest sys) = wait_trace sys @ [Receive v, SetState Dead] \<and>
   state (sm (received v rest sys)) = Dead \<and>
   waitForIteratorDone (sm (received v rest sys)) = rest \<and>
   signalers (sm (received v rest sys)) = signalers (sm sys)"
  by (simp add: wait_defs)

subsection \<open>The two threads leave each other's variables alone\<close>

lemma routine_returned_frame:
  "waiting (routine_returned a e sys) = waiting sys \<and>
   wait_trace (routine_returned a e sys) = wait_trace sys \<and>
   signalers (sm (routine_returned a e sys)) = signalers (sm sys)"
  by (cases a) (simp_all add: worker_defs Let_def)

lemma context_done_frame:
  "waiting (context_done sys) = waiting sys \<and>
   wait_trace (context_done sys) = wait_trace sys \<and>
   signalers (sm (context_done sys)) = signalers (sm sys)"
  by (cases "state (sm sys)") (simp_all add: worker_defs Let_def)

lemma goroutine_begins_frame:
  "waiting (goroutine_begins sys) = waiting sys \<and>
   wait_trace (goroutine_begins sys) = wait_trace sys \<and>
   signalers (sm (goroutine_begins sys)) = signalers (sm sys)"
  by (simp add: worker_defs)

lemma send_done_frame:
  "waiting (send_done sys) = waiting sys \<and>
   wait_trace (send_done sys) = wait_trace sys \<and>
   signalers (sm (send_done sys)) = signalers (sm sys)"
  by (simp add: worker_defs)

lemma worker_step_frame:
  assumes "step sys ev = Some sys'"
    and "ev = GoroutineStarts \<or> (\<exists>a e. ev = RoutineReturns a e) \<or> ev = ContextDone \<or> ev = SendCompletes"
  shows "waiting sys' = waiting sys \<and> wait_trace sys' = wait_trace sys \<and>
         signalers (sm sys') = signalers (sm sys)"
proof (cases ev)
  case GoroutineStarts
  with assms(1) have "sys' = goroutine_begins sys" by (simp add: step_def split: if_splits)
  then show ?thesis by (simp add: goroutine_begins_frame)
next
  case (RoutineReturns a e)
  with assms(1) have "sys' = routine_returned a e sys" by (simp add: step_def split: if_splits)
  then show ?thesis by (simp add: routine_returned_frame)
next
  case ContextDone
  with assms(1) have "sys' = context_done sys" by (simp add: step_def split: if_splits)
  then show ?thesis by (simp add: context_done_frame)
next
  case SendCompletes
  with assms(1) have "sys' = send_done sys" by (simp add: step_def split: if_splits)
  then show ?thesis by (simp add: send_done_frame)
qed (use assms(2) in simp_all)



section \<open>Teardown: who is told to cancel\<close>

lemma Wait_body_inv:
  assumes inv: "teardown_inv sys" and sel: "waiting sys = Selecting"
  shows "teardown_inv (Wait_body chosen rcv ok sys) \<and>
         set (signalers (sm (Wait_body chosen rcv ok sys))) \<subseteq> set (signalers (sm sys))"
proof (cases ok)
  case False
  show ?thesis
  proof (cases "removeSignaler (int chosen) (sm sys)")
    case None
    with False inv sel show ?thesis
      by (simp add: Wait_body_closed teardown_inv_def)
  next
    case (Some r)
    obtain b s' where r: "r = (b, s')" by (cases r)
    from Some r inv have d: "distinct (signalers s')" "set (signalers s') \<subseteq> set (signalers (sm sys))"
      using removeSignaler_distinct [of "int chosen" "sm sys" b s'] by (simp_all add: teardown_inv_def)
    from inv sel have c: "cancelled_signalers (wait_trace sys) = []"
      by (simp add: teardown_inv_def)
    show ?thesis
      using False Some r d c sel
      by (simp add: Wait_body_closed teardown_inv_def wait_defs cancelled_signalers_append)
  qed
next
  case True
  from inv sel have c: "cancelled_signalers (wait_trace sys) = []"
    and d: "distinct (signalers (sm sys))"
    by (simp_all add: teardown_inv_def)
  show ?thesis
  proof (cases rcv)
    case (IsSignalControl fo)
    show ?thesis
    proof (cases fo)
      case None
      with True IsSignalControl c d show ?thesis
        by (simp add: Wait_body_nil_func teardown_inv_def)
    next
      case (Some f)
      with True IsSignalControl c d sel show ?thesis
        by (cases "f (sm sys)")
           (simp_all add: Wait_body_control teardown_inv_def wait_defs
              cancelled_signalers_append cancelled_signalers_map_Cancel)
    qed
  next
    case (IsError msg)
    with True c d show ?thesis
      by (simp add: Wait_body_error teardown_inv_def wait_defs
            cancelled_signalers_append cancelled_signalers_map_Cancel)
  next
    case NilInterface
    with True inv show ?thesis by (simp add: Wait_body_nil)
  qed
qed

lemma teardown_inv_buffer:
  "teardown_inv (sys\<lparr>sm := (sm sys)\<lparr>waitForIteratorDone := b\<rparr>\<rparr>) = teardown_inv sys"
  by (simp add: teardown_inv_def)

lemma step_teardown_inv:
  assumes inv: "teardown_inv sys" and st: "step sys ev = Some sys'"
  shows "teardown_inv sys' \<and> set (signalers (sm sys')) \<subseteq> set (signalers (sm sys))"
proof (cases ev)
  case (SelectSignaler i d)
  with st have sel: "waiting sys = Selecting"
    and eq: "sys' = (case d of
                   ChannelClosed \<Rightarrow> Wait_body i (IsSignalControl None) False sys
                 | Delivers f \<Rightarrow> Wait_body i (IsSignalControl f) True sys)"
    using step_select_signaler [of sys i d sys'] by simp_all
  show ?thesis
    unfolding eq using Wait_body_inv [OF inv sel] by (cases d) simp_all
next
  case SelectDone
  with st obtain v rest where sel: "waiting sys = Selecting"
    and eq: "sys' = Wait_body (length (signalers (sm sys))) (interface_of_error v) True
                     (sys\<lparr>sm := (sm sys)\<lparr>waitForIteratorDone := rest\<rparr>\<rparr>)"
    using step_select_done [of sys sys'] by auto
  let ?sys1 = "sys\<lparr>sm := (sm sys)\<lparr>waitForIteratorDone := rest\<rparr>\<rparr>"
  have "teardown_inv ?sys1" using inv by (simp add: teardown_inv_buffer)
  moreover have "waiting ?sys1 = Selecting" using sel by simp
  ultimately show ?thesis
    unfolding eq using Wait_body_inv [of ?sys1] by simp
next
  case RecvCompletes
  with st obtain v rest where rcv: "waiting sys = Receiving"
    and eq: "sys' = received v rest sys"
    using step_recv [of sys sys'] by auto
  with inv show ?thesis
    by (simp add: teardown_inv_def wait_defs cancelled_signalers_append)
next
  case GoroutineStarts
  with st inv show ?thesis using worker_step_frame [of sys ev sys']
    by (simp add: teardown_inv_def)
next
  case (RoutineReturns a e)
  with st inv show ?thesis using worker_step_frame [of sys ev sys']
    by (simp add: teardown_inv_def)
next
  case ContextDone
  with st inv show ?thesis using worker_step_frame [of sys ev sys']
    by (simp add: teardown_inv_def)
next
  case SendCompletes
  with st inv show ?thesis using worker_step_frame [of sys ev sys']
    by (simp add: teardown_inv_def)
qed

lemma run_teardown_inv:
  "teardown_inv sys \<Longrightarrow> run sys evs = Some sys' \<Longrightarrow>
     teardown_inv sys' \<and> set (signalers (sm sys')) \<subseteq> set (signalers (sm sys))"
proof (induction evs arbitrary: sys)
  case Nil
  then show ?case by simp
next
  case (Cons ev evs)
  from Cons.prems(2) obtain sys1 where s1: "step sys ev = Some sys1" and r: "run sys1 evs = Some sys'"
    by (auto split: option.splits)
  from step_teardown_inv [OF Cons.prems(1) s1] Cons.IH [OF _ r] show ?case by blast
qed

lemma teardown_inv_Start: "distinct sigs \<Longrightarrow> teardown_inv (Start sigs)"
  by (simp add: teardown_inv_def Start_def)

text \<open>
  Claim C3 says that Cancel is invoked, in the final teardown, on every signaler that was
  registered, also on one that was evicted because its channel was observed closed, and
  on nobody twice. \<^verbatim>\<open>cancelSignalers\<close> ranges over \<^verbatim>\<open>s.signalers\<close>, from which
  \<^verbatim>\<open>removeSignaler\<close> has taken the evicted ones, and the manager keeps no other record of
  them: an evicted signaler is never cancelled. Two signalers are registered; the channel
  of the first (7) is closed and it is evicted; the second (8) delivers stop; the routine
  returns and its nil is received. \<^verbatim>\<open>Wait\<close> has returned, and Cancel was called on 8 only.
\<close>

theorem evicted_signaler_is_not_cancelled:
  "run (Start [7::nat, 8])
     [GoroutineStarts, SelectSignaler 0 ChannelClosed,
      SelectSignaler 0 (Delivers (Some ContextSignal_Stop)),
      RoutineReturns GracefulContinue None, SendCompletes, RecvCompletes]
   = Some \<lparr>sm = \<lparr>signalers = [8], state = Dead, cancelFunc = 0,
                 waitForIteratorDone = []\<rparr>,
           done_ctxs = [0], contexts = 1, subCtx = 0, err = None,
           worker = Ended, waiting = Returned None,
           wait_trace = [SetState Dying, CancelCtx 0, Cancel 8, Receive None, SetState Dead],
           worker_trace = [NewContext 0, SetState Running, Invoke 0, Send None]\<rparr> \<and>
   cancelled_signalers
     [SetState Dying, CancelCtx 0, Cancel (8::nat), Receive None, SetState Dead] = [8] \<and>
   (7::nat) \<notin> set [8]"
  by (simp add: run_defs)

text \<open>
  Claim C3, as the code has it. Let the signalers be registered once each, let the system
  run from \<^verbatim>\<open>Start\<close> to any point (\<open>sys1\<close>) and on to any later point (\<open>sys2\<close>). The
  registry only shrinks: whoever was evicted by the first point is not in it at the
  second. Nobody has Cancel invoked twice. While \<^verbatim>\<open>Wait\<close> is in its loop (or has panicked)
  nobody was cancelled; once it has left the loop, by the stop branch, by the branch of a
  completion error or by the \<^verbatim>\<open>break\<close> on an empty registry, the signalers cancelled are
  exactly those still in the registry, each once, in registry order. So Cancel is invoked
  exactly once on every signaler that remains registered when the loop is left, and never
  on an evicted one.
\<close>

theorem teardown_cancels_the_remaining:
  assumes "distinct sigs" and "run (Start sigs) evs1 = Some sys1" and "run sys1 evs2 = Some sys2"
  shows "set (signalers (sm sys1)) \<subseteq> set sigs \<and>
         set (signalers (sm sys2)) \<subseteq> set (signalers (sm sys1)) \<and>
         distinct (cancelled_signalers (wait_trace sys2)) \<and>
         (if waiting sys2 = Selecting \<or> waiting sys2 = Panicked
          then cancelled_signalers (wait_trace sys2) = []
          else cancelled_signalers (wait_trace sys2) = signalers (sm sys2))"
proof -
  from run_teardown_inv [OF teardown_inv_Start [OF assms(1)] assms(2)]
  have i1: "teardown_inv sys1" and s1: "set (signalers (sm sys1)) \<subseteq> set sigs"
    by (simp_all add: Start_def)
  from run_teardown_inv [OF i1 assms(3)]
  have i2: "teardown_inv sys2" and s2: "set (signalers (sm sys2)) \<subseteq> set (signalers (sm sys1))"
    by simp_all
  from i2 have "distinct (cancelled_signalers (wait_trace sys2))"
    by (auto simp: teardown_inv_def split: if_splits)
  with i2 s1 s2 show ?thesis by (simp add: teardown_inv_def)
qed

text \<open>
  The theorem on the run of the counterexample, cut after the eviction: signaler 7 is
  gone from the registry at the first point, and at the end only 8 was cancelled.
\<close>

theorem teardown_cancels_the_remaining_witness:
  "distinct [7::nat, 8] \<and>
   (\<exists>sys1 sys2.
      run (Start [7::nat, 8]) [GoroutineStarts, SelectSignaler 0 ChannelClosed] = Some sys1 \<and>
      run sys1 [SelectSignaler 0 (Delivers (Some ContextSignal_Stop)),
                RoutineReturns GracefulContinue None, SendCompletes, RecvCompletes] = Some sys2 \<and>
      signalers (sm sys1) = [8] \<and>
      set (signalers (sm sys1)) \<subseteq> set [7, 8] \<and>
      set (signalers (sm sys2)) \<subseteq> set (signalers (sm sys1)) \<and>
      distinct (cancelled_signalers (wait_trace sys2)) \<and>
      waiting sys2 = Returned None \<and>
      cancelled_signalers (wait_trace sys2) = signalers (sm sys2))"
proof -
  let ?evs1 = "[GoroutineStarts, SelectSignaler 0 ChannelClosed] :: nat event list"
  let ?evs2 = "[SelectSignaler 0 (Delivers (Some ContextSignal_Stop)),
                RoutineReturns GracefulContinue None, SendCompletes, RecvCompletes] :: nat event list"
  let ?S1 = "\<lparr>sm = \<lparr>signalers = [8::nat], state = Running, cancelFunc = 0,
                 waitForIteratorDone = []\<rparr>,
           done_ctxs = [], contexts = 1, subCtx = 0, err = None,
           worker = InRoutine, waiting = Selecting, wait_trace = [],
           worker_trace = [NewContext 0, SetState Running, Invoke 0]\<rparr>"
  let ?S2 = "\<lparr>sm = \<lparr>signalers = [8::nat], state = Dead, cancelFunc = 0,
                 waitForIteratorDone = []\<rparr>,
           done_ctxs = [0], contexts = 1, subCtx = 0, err = None,
           worker = Ended, waiting = Returned None,
           wait_trace = [SetState Dying, CancelCtx 0, Cancel 8, Receive None, SetState Dead],
           worker_trace = [NewContext 0, SetState Running, Invoke 0, Send None]\<rparr>"
  have d: "distinct [7::nat, 8]" by simp
  have r1: "run (Start [7::nat, 8]) ?evs1 = Some ?S1" by (simp add: run_defs)
  have r2: "run ?S1 ?evs2 = Some ?S2" by (simp add: run_defs)
  have g1: "signalers (sm ?S1) = [8]" and w2: "waiting ?S2 = Returned None" by simp_all
  from teardown_cancels_the_remaining [OF d r1 r2]
  have "set (signalers (sm ?S1)) \<subseteq> set [7, 8]"
    and "set (signalers (sm ?S2)) \<subseteq> set (signalers (sm ?S1))"
    and "distinct (cancelled_signalers (wait_trace ?S2))"
    and "cancelled_signalers (wait_trace ?S2) = signalers (sm ?S2)"
    by simp_all
  with d r1 r2 g1 w2 show ?thesis by blast
qed

text \<open>
  The registry does not check for duplicates: a signaler registered twice is
  cancelled twice by one teardown pass.
\<close>

lemma registered_twice_is_cancelled_twice:
  "run (Start [7::nat, 7]) [GoroutineStarts, SelectSignaler 1 (Delivers (Some ContextSignal_Stop))]
   = Some \<lparr>sm = \<lparr>signalers = [7, 7], state = Dying, cancelFunc = 0,
                 waitForIteratorDone = []\<rparr>,
           done_ctxs = [0], contexts = 1, subCtx = 0, err = None,
           worker = InRoutine, waiting = Receiving,
           wait_trace = [SetState Dying, CancelCtx 0, Cancel 7, Cancel 7],
           worker_trace = [NewContext 0, SetState Running, Invoke 0]\<rparr>"
  by (simp add: run_defs)

section \<open>The stop branch of Wait\<close>

text \<open>
  Once \<^verbatim>\<open>Wait\<close> has returned nothing of its side changes any more; while it is in the
  receive of the stop branch, the only thing it can still do is complete that receive,
  set the state to \<open>Dead\<close> and return what it received.
\<close>

lemma step_Returned:
  assumes "waiting sys = Returned v" and "step sys ev = Some sys'"
  shows "waiting sys' = Returned v \<and> wait_trace sys' = wait_trace sys"
proof (cases ev)
  case (SelectSignaler i d)
  with assms show ?thesis using step_select_signaler [of sys i d sys'] by simp
next
  case SelectDone
  with assms show ?thesis using step_select_done [of sys sys'] by simp
next
  case RecvCompletes
  with assms show ?thesis using step_recv [of sys sys'] by simp
qed (use assms worker_step_frame [of sys ev sys'] in simp_all)

lemma run_Returned:
  "waiting sys = Returned v \<Longrightarrow> run sys evs = Some sys' \<Longrightarrow>
     waiting sys' = Returned v \<and> wait_trace sys' = wait_trace sys"
proof (induction evs arbitrary: sys)
  case Nil
  then show ?case by simp
next
  case (Cons ev evs)
  from Cons.prems(2) obtain sys1 where s1: "step sys ev = Some sys1" and r: "run sys1 evs = Some sys'"
    by (auto split: option.splits)
  from step_Returned [OF Cons.prems(1) s1] Cons.IH [OF _ r] show ?case by simp
qed

lemma step_Receiving:
  assumes "waiting sys = Receiving" and "step sys ev = Some sys'"
  shows "(waiting sys' = Receiving \<and> wait_trace sys' = wait_trace sys) \<or>
         (\<exists>v. waiting sys' = Returned v \<and>
              wait_trace sys' = wait_trace sys @ [Receive v, SetState Dead])"
proof (cases ev)
  case (SelectSignaler i d)
  with assms show ?thesis using step_select_signaler [of sys i d sys'] by simp
next
  case SelectDone
  with assms show ?thesis using step_select_done [of sys sys'] by simp
next
  case RecvCompletes
  with assms show ?thesis using step_recv [of sys sys'] by (auto simp: received_fields)
qed (use assms worker_step_frame [of sys ev sys'] in simp_all)

lemma run_Receiving:
  "waiting sys = Receiving \<Longrightarrow> run sys evs = Some sys' \<Longrightarrow>
     (waiting sys' = Receiving \<and> wait_trace sys' = wait_trace sys) \<or>
     (\<exists>v. waiting sys' = Returned v \<and>
          wait_trace sys' = wait_trace sys @ [Receive v, SetState Dead])"
proof (induction evs arbitrary: sys)
  case Nil
  then show ?case by simp
next
  case (Cons ev evs)
  from Cons.prems(2) obtain sys1 where s1: "step sys ev = Some sys1" and r: "run sys1 evs = Some sys'"
    by (auto split: option.splits)
  from step_Receiving [OF Cons.prems(1) s1] show ?case
  proof
    assume "waiting sys1 = Receiving \<and> wait_trace sys1 = wait_trace sys"
    with Cons.IH [OF _ r] show ?thesis by simp
  next
    assume "\<exists>v. waiting sys1 = Returned v \<and>
              wait_trace sys1 = wait_trace sys @ [Receive v, SetState Dead]"
    then obtain v where "waiting sys1 = Returned v"
      and "wait_trace sys1 = wait_trace sys @ [Receive v, SetState Dead]" by blast
    with run_Returned [OF _ r] show ?thesis by simp
  qed
qed

text \<open>
  Claim C4 gives the order of the stop branch as: cancel the context, set the state to
  Dying, cancel the signalers, receive. The code sets the state first and cancels the
  context second (\<^verbatim>\<open>s.setState(Dying)\<close>, then \<^verbatim>\<open>s.cancelFunc()\<close>). One signaler
  delivers stop: the log of \<^verbatim>\<open>Wait\<close> starts with the state change.
\<close>

theorem stop_sets_Dying_before_cancelling_the_context:
  "run (Start [7::nat]) [GoroutineStarts, SelectSignaler 0 (Delivers (Some ContextSignal_Stop))]
   = Some \<lparr>sm = \<lparr>signalers = [7], state = Dying, cancelFunc = 0,
                 waitForIteratorDone = []\<rparr>,
           done_ctxs = [0], contexts = 1, subCtx = 0, err = None,
           worker = InRoutine, waiting = Receiving,
           wait_trace = [SetState Dying, CancelCtx 0, Cancel 7],
           worker_trace = [NewContext 0, SetState Running, Invoke 0]\<rparr> \<and>
   [SetState Dying, CancelCtx 0, Cancel (7::nat)] \<noteq> [CancelCtx 0, SetState Dying, Cancel 7]"
  by (simp add: run_defs)

text \<open>
  Claim C4, as the code has it. When \<^verbatim>\<open>Wait\<close> is selecting and the control function
  received from a registered signaler evaluates to stop, \<^verbatim>\<open>Wait\<close> does, in this order and
  in the same pass: set the state to Dying, cancel the context whose cancel function is
  stored, call Cancel on every signaler of the registry in registry order, and go into
  the receive on the completion channel. Whatever the rest of the system does
  afterwards, \<^verbatim>\<open>Wait\<close> either is still in that receive, having done nothing more, or
  has received one value \<open>v\<close>, set the state to Dead and returned \<open>v\<close>, and has
  done nothing else. Whenever the channel holds a value while \<^verbatim>\<open>Wait\<close> is in the
  receive, the receive can complete, and \<^verbatim>\<open>Wait\<close> returns that value with state Dead.
\<close>

theorem Wait_stop_order:
  assumes sel: "waiting sys = Selecting" and i: "i < length (signalers (sm sys))"
    and stop: "f (sm sys) = GracefulStop"
  shows "\<exists>sys1. step sys (SelectSignaler i (Delivers (Some f))) = Some sys1 \<and>
           waiting sys1 = Receiving \<and>
           wait_trace sys1 = wait_trace sys
               @ [SetState Dying, CancelCtx (cancelFunc (sm sys))]
               @ map Cancel (signalers (sm sys)) \<and>
           (\<forall>evs sys2. run sys1 evs = Some sys2 \<longrightarrow>
               (waiting sys2 = Receiving \<and> wait_trace sys2 = wait_trace sys1) \<or>
               (\<exists>v. waiting sys2 = Returned v \<and>
                    wait_trace sys2 = wait_trace sys1 @ [Receive v, SetState Dead])) \<and>
           (\<forall>evs sys2 v rest.
               run sys1 evs = Some sys2 \<and> waiting sys2 = Receiving \<and>
               waitForIteratorDone (sm sys2) = v # rest \<longrightarrow>
               (\<exists>sys3. step sys2 RecvCompletes = Some sys3 \<and> waiting sys3 = Returned v \<and>
                       state (sm sys3) = Dead \<and>
                       wait_trace sys3 = wait_trace sys1 @ [Receive v, SetState Dead]))"
proof -
  let ?sys1 = "(cancelSignalers (call_cancelFunc ByWait (setState ByWait Dying sys)))
                   \<lparr>waiting := Receiving\<rparr>"
  have st: "step sys (SelectSignaler i (Delivers (Some f))) = Some ?sys1"
    using assms by (rule step_stop)
  have w: "waiting ?sys1 = Receiving" by simp
  have tr: "wait_trace ?sys1 = wait_trace sys
               @ [SetState Dying, CancelCtx (cancelFunc (sm sys))]
               @ map Cancel (signalers (sm sys))"
    by (simp add: wait_defs)
  have later: "\<forall>evs sys2. run ?sys1 evs = Some sys2 \<longrightarrow>
               (waiting sys2 = Receiving \<and> wait_trace sys2 = wait_trace ?sys1) \<or>
               (\<exists>v. waiting sys2 = Returned v \<and>
                    wait_trace sys2 = wait_trace ?sys1 @ [Receive v, SetState Dead])"
    using run_Receiving [OF w] by blast
  have progress: "\<forall>evs sys2 v rest.
               run ?sys1 evs = Some sys2 \<and> waiting sys2 = Receiving \<and>
               waitForIteratorDone (sm sys2) = v # rest \<longrightarrow>
               (\<exists>sys3. step sys2 RecvCompletes = Some sys3 \<and> waiting sys3 = Returned v \<and>
                       state (sm sys3) = Dead \<and>
                       wait_trace sys3 = wait_trace ?sys1 @ [Receive v, SetState Dead])"
  proof (intro allI impI)
    fix evs sys2 v rest
    assume a: "run ?sys1 evs = Some sys2 \<and> waiting sys2 = Receiving \<and>
               waitForIteratorDone (sm sys2) = v # rest"
    then have en: "step sys2 RecvCompletes = Some (received v rest sys2)"
      by (simp add: step_recv_enabled)
    from a run_Receiving [OF w, of evs sys2] have "wait_trace sys2 = wait_trace ?sys1" by auto
    with en show "\<exists>sys3. step sys2 RecvCompletes = Some sys3 \<and> waiting sys3 = Returned v \<and>
                       state (sm sys3) = Dead \<and>
                       wait_trace sys3 = wait_trace ?sys1 @ [Receive v, SetState Dead]"
      by (simp add: received_fields)
  qed
  from st w tr later progress show ?thesis by blast
qed

text \<open>
  The theorem with two signalers, the second of which delivers stop while the routine
  runs; the routine then returns an error, which is sent, received and returned.
\<close>

theorem Wait_stop_order_witness:
  "waiting \<lparr>sm = \<lparr>signalers = [7::nat, 8], state = Running, cancelFunc = 0,
                 waitForIteratorDone = []\<rparr>,
           done_ctxs = [], contexts = 1, subCtx = 0, err = None,
           worker = InRoutine, waiting = Selecting, wait_trace = [],
           worker_trace = [NewContext 0, SetState Running, Invoke 0]\<rparr> = Selecting \<and>
   (1::nat) < length [7::nat, 8] \<and>
   ContextSignal_Stop \<lparr>signalers = [7::nat, 8], state = Running, cancelFunc = 0,
                 waitForIteratorDone = []\<rparr> = GracefulStop \<and>
   (\<exists>sys1 sys2 sys3.
      step \<lparr>sm = \<lparr>signalers = [7::nat, 8], state = Running, cancelFunc = 0,
                 waitForIteratorDone = []\<rparr>,
           done_ctxs = [], contexts = 1, subCtx = 0, err = None,
           worker = InRoutine, waiting = Selecting, wait_trace = [],
           worker_trace = [NewContext 0, SetState Running, Invoke 0]\<rparr>
        (SelectSignaler 1 (Delivers (Some ContextSignal_Stop))) = Some sys1 \<and>
      waiting sys1 = Receiving \<and>
      wait_trace sys1 = [SetState Dying, CancelCtx 0, Cancel 7, Cancel 8] \<and>
      run sys1 [RoutineReturns GracefulContinue (Some ''late'')] = Some sys2 \<and>
      waiting sys2 = Receiving \<and> wait_trace sys2 = wait_trace sys1 \<and>
      run sys1 [RoutineReturns GracefulContinue (Some ''late''), SendCompletes, RecvCompletes]
        = Some sys3 \<and>
      waiting sys3 = Returned (Some ''late'') \<and>
      wait_trace sys3 = [SetState Dying, CancelCtx 0, Cancel 7, Cancel 8,
                         Receive (Some ''late''), SetState Dead])"
proof -
  let ?S0 = "\<lparr>sm = \<lparr>signalers = [7::nat, 8], state = Running, cancelFunc = 0,
                 waitForIteratorDone = []\<rparr>,
           done_ctxs = [], contexts = 1, subCtx = 0, err = None,
           worker = InRoutine, waiting = Selecting, wait_trace = [],
           worker_trace = [NewContext 0, SetState Running, Invoke 0]\<rparr>"
  let ?S2 = "\<lparr>sm = \<lparr>signalers = [7::nat, 8], state = Dying, cancelFunc = 0,
                 waitForIteratorDone = []\<rparr>,
           done_ctxs = [0], contexts = 1, subCtx = 0, err = Some ''late'',
           worker = Sending, waiting = Receiving,
           wait_trace = [SetState Dying, CancelCtx 0, Cancel 7, Cancel 8],
           worker_trace = [NewContext 0, SetState Running, Invoke 0]\<rparr>"
  let ?S3 = "\<lparr>sm = \<lparr>signalers = [7::nat, 8], state = Dead, cancelFunc = 0,
                 waitForIteratorDone = []\<rparr>,
           done_ctxs = [0], contexts = 1, subCtx = 0, err = Some ''late'',
           worker = Ended, waiting = Returned (Some ''late''),
           wait_trace = [SetState Dying, CancelCtx 0, Cancel 7, Cancel 8,
                         Receive (Some ''late''), SetState Dead],
           worker_trace = [NewContext 0, SetState Running, Invoke 0, Send (Some ''late'')]\<rparr>"
  have sel: "waiting ?S0 = Selecting" by simp
  have i: "(1::nat) < length (signalers (sm ?S0))" by simp
  have stop: "ContextSignal_Stop (sm ?S0) = GracefulStop" by (simp add: ContextSignal_Stop_def)
  from Wait_stop_order [of ?S0 1 ContextSignal_Stop, OF sel i stop]
  obtain sys1 where st: "step ?S0 (SelectSignaler 1 (Delivers (Some ContextSignal_Stop))) = Some sys1"
    and w1: "waiting sys1 = Receiving"
    and tr: "wait_trace sys1 = wait_trace ?S0
               @ [SetState Dying, CancelCtx (cancelFunc (sm ?S0))]
               @ map Cancel (signalers (sm ?S0))"
    and later: "\<forall>evs sys2. run sys1 evs = Some sys2 \<longrightarrow>
               (waiting sys2 = Receiving \<and> wait_trace sys2 = wait_trace sys1) \<or>
               (\<exists>v. waiting sys2 = Returned v \<and>
                    wait_trace sys2 = wait_trace sys1 @ [Receive v, SetState Dead])"
    by blast
  from st have r2: "run sys1 [RoutineReturns GracefulContinue (Some ''late'')] = Some ?S2"
    by (auto simp: run_defs)
  from st have r3: "run sys1 [RoutineReturns GracefulContinue (Some ''late''), SendCompletes,
                              RecvCompletes] = Some ?S3"
    by (auto simp: run_defs)
  from later r2 have l2: "waiting ?S2 = Receiving \<and> wait_trace ?S2 = wait_trace sys1"
    by fastforce
  from later r3 have l3: "waiting ?S3 = Returned (Some ''late'') \<and>
        wait_trace ?S3 = wait_trace sys1 @ [Receive (Some ''late''), SetState Dead]"
    by fastforce
  from tr have tr1: "wait_trace sys1 = [SetState Dying, CancelCtx 0, Cancel 7, Cancel 8]"
    by simp
  from sel i stop st w1 tr1 r2 l2 r3 l3 show ?thesis
    by (intro conjI exI [of _ sys1] exI [of _ ?S2] exI [of _ ?S3]) simp_all
qed

text \<open>
  When the goroutine has ended and the completion channel is empty, a \<^verbatim>\<open>Wait\<close> that is in
  the receive of the stop branch stays there: no step of the system is possible.
\<close>

lemma nothing_left_to_receive:
  assumes "worker sys = Ended" and "waitForIteratorDone (sm sys) = []"
    and "waiting sys = Receiving"
  shows "step sys ev = None"
  using assms by (cases ev) (simp_all add: step_def)

text \<open>
  With any registry and any of its signalers: the routine exits cleanly, its nil is sent,
  taken by the select and dropped; then the signaler delivers a control function that
  evaluates to stop. \<^verbatim>\<open>Wait\<close> ends in the receive of the stop branch, with state Dying,
  and the system can take no further step.
\<close>

lemma stop_after_clean_exit_any_registry:
  assumes "i < length sigs"
    and "f \<lparr>signalers = sigs, state = Running, cancelFunc = 0, waitForIteratorDone = []\<rparr>
           = GracefulStop"
  shows "\<exists>sys. run (Start sigs)
             [GoroutineStarts, RoutineReturns GracefulStop None, SendCompletes, SelectDone,
              SelectSignaler i (Delivers (Some f))] = Some sys \<and>
           waiting sys = Receiving \<and> state (sm sys) = Dying \<and> worker sys = Ended \<and>
           waitForIteratorDone (sm sys) = [] \<and> (\<forall>ev. step sys ev = None)"
proof -
  let ?sys = "\<lparr>sm = \<lparr>signalers = sigs, state = Dying, cancelFunc = 0,
                 waitForIteratorDone = []\<rparr>,
           done_ctxs = [0], contexts = 1, subCtx = 0, err = None,
           worker = Ended, waiting = Receiving,
           wait_trace = [SetState Dying, CancelCtx 0] @ map Cancel sigs,
           worker_trace = [NewContext 0, SetState Running, Invoke 0, Send None]\<rparr>"
  have "run (Start sigs)
             [GoroutineStarts, RoutineReturns GracefulStop None, SendCompletes, SelectDone,
              SelectSignaler i (Delivers (Some f))] = Some ?sys"
    using assms by (simp add: run_defs)
  moreover have "\<forall>ev. step ?sys ev = None"
    by (simp add: nothing_left_to_receive)
  ultimately show ?thesis by simp
qed

text \<open>
  Claim C1 says that a stop control function always brings \<^verbatim>\<open>Wait\<close> out of its loop, the
  state to Dead, and the worker's last error (nil after a clean exit) to the caller. It
  does so when the completion channel still delivers a value to the receive of the stop
  branch (the theorem of claim C4). It does not when the worker has exited cleanly
  before the stop arrives: the routine returns \<^verbatim>\<open>(GracefulStop, nil)\<close>, the goroutine
  sends nil and ends, \<^verbatim>\<open>reflect.Select\<close> hands the nil to \<^verbatim>\<open>Wait\<close>, whose type switch
  matches no case for it, so that \<^verbatim>\<open>Wait\<close> selects again; then the signaler delivers
  stop, and the stop branch waits for a second value on a channel that its only sender
  has already used. The state is Dying, nobody can take a step, \<^verbatim>\<open>Wait\<close> never returns.
\<close>

theorem stop_after_clean_exit_never_returns:
  "run (Start [7::nat])
     [GoroutineStarts, RoutineReturns GracefulStop None, SendCompletes, SelectDone,
      SelectSignaler 0 (Delivers (Some ContextSignal_Stop))]
   = Some \<lparr>sm = \<lparr>signalers = [7], state = Dying, cancelFunc = 0,
                 waitForIteratorDone = []\<rparr>,
           done_ctxs = [0], contexts = 1, subCtx = 0, err = None,
           worker = Ended, waiting = Receiving,
           wait_trace = [SetState Dying, CancelCtx 0, Cancel 7],
           worker_trace = [NewContext 0, SetState Running, Invoke 0, Send None]\<rparr> \<and>
   (\<forall>ev. step \<lparr>sm = \<lparr>signalers = [7::nat], state = Dying, cancelFunc = 0,
                 waitForIteratorDone = []\<rparr>,
           done_ctxs = [0], contexts = 1, subCtx = 0, err = None,
           worker = Ended, waiting = Receiving,
           wait_trace = [SetState Dying, CancelCtx 0, Cancel 7],
           worker_trace = [NewContext 0, SetState Running, Invoke 0, Send None]\<rparr> ev = None)"
proof (intro conjI allI)
  show "run (Start [7::nat])
     [GoroutineStarts, RoutineReturns GracefulStop None, SendCompletes, SelectDone,
      SelectSignaler 0 (Delivers (Some ContextSignal_Stop))]
   = Some \<lparr>sm = \<lparr>signalers = [7], state = Dying, cancelFunc = 0,
                 waitForIteratorDone = []\<rparr>,
           done_ctxs = [0], contexts = 1, subCtx = 0, err = None,
           worker = Ended, waiting = Receiving,
           wait_trace = [SetState Dying, CancelCtx 0, Cancel 7],
           worker_trace = [NewContext 0, SetState Running, Invoke 0, Send None]\<rparr>"
    by (simp add: run_defs)
next
  fix ev :: "nat event"
  show "step \<lparr>sm = \<lparr>signalers = [7::nat], state = Dying, cancelFunc = 0,
                 waitForIteratorDone = []\<rparr>,
           done_ctxs = [0], contexts = 1, subCtx = 0, err = None,
           worker = Ended, waiting = Receiving,
           wait_trace = [SetState Dying, CancelCtx 0, Cancel 7],
           worker_trace = [NewContext 0, SetState Running, Invoke 0, Send None]\<rparr> ev = None"
    by (cases ev) (simp_all add: step_def)
qed

section \<open>The completion channel in the select\<close>

text \<open>
  What \<^verbatim>\<open>Wait\<close> does with a value that \<^verbatim>\<open>reflect.Select\<close> took from the completion
  channel. A non-nil error runs the \<^verbatim>\<open>case error\<close> branch: every signaler of the
  registry is cancelled, then the context, the error is the result, the state is Dead,
  and no receive follows. A nil value runs no branch: it is taken out of the channel and
  dropped, and \<^verbatim>\<open>Wait\<close> selects again.
\<close>

lemma select_done_error:
  assumes "waiting sys = Selecting" and "waitForIteratorDone (sm sys) = Some msg # rest"
  shows "\<exists>sys'. step sys SelectDone = Some sys' \<and>
           waiting sys' = Returned (Some msg) \<and> state (sm sys') = Dead \<and>
           wait_trace sys' = wait_trace sys @ map Cancel (signalers (sm sys))
               @ [CancelCtx (cancelFunc (sm sys)), SetState Dead]"
  using assms
  by (simp add: step_def reflect_Select_def buildSelectCases_def interface_of_error_def
        Wait_body_error wait_defs)

lemma select_done_nil:
  assumes "waiting sys = Selecting" and "waitForIteratorDone (sm sys) = None # rest"
  shows "step sys SelectDone = Some (sys\<lparr>sm := (sm sys)\<lparr>waitForIteratorDone := rest\<rparr>\<rparr>)"
  using assms
  by (simp add: step_def reflect_Select_def buildSelectCases_def interface_of_error_def
        Wait_body_nil)

text \<open>
  Claim C2 says that for every value the select delivers from the completion channel,
  a nil value included, \<^verbatim>\<open>Wait\<close> cancels every remaining signaler, takes the value as
  its result and leaves the loop. For nil the code does none of this. The routine exits
  cleanly with \<^verbatim>\<open>(GracefulStop, nil)\<close>, the goroutine sends nil, the select delivers it:
  afterwards \<^verbatim>\<open>Wait\<close> is still selecting, has cancelled nobody (its log is empty), the
  state is Running, not Dead, and the channel is empty.
\<close>

theorem nil_completion_is_dropped:
  "run (Start [7::nat]) [GoroutineStarts, RoutineReturns GracefulStop None, SendCompletes, SelectDone]
   = Some \<lparr>sm = \<lparr>signalers = [7], state = Running, cancelFunc = 0,
                 waitForIteratorDone = []\<rparr>,
           done_ctxs = [], contexts = 1, subCtx = 0, err = None,
           worker = Ended, waiting = Selecting, wait_trace = [],
           worker_trace = [NewContext 0, SetState Running, Invoke 0, Send None]\<rparr>"
  by (simp add: run_defs)

section \<open>The last signaler's channel is closed\<close>

lemma last_channel_closed:
  assumes "waiting sys = Selecting" and "signalers (sm sys) = [x]"
  shows "step sys (SelectSignaler 0 ChannelClosed)
           = Some (Wait_return None (sys\<lparr>sm := (sm sys)\<lparr>signalers := []\<rparr>\<rparr>))"
  using assms
  by (simp add: step_def reflect_Select_def buildSelectCases_def Wait_body_closed
        removeSignaler_def)

text \<open>
  Claim C7 says that when every signaler's channel has been observed closed while the
  worker is still running, \<^verbatim>\<open>Wait\<close> does not return but blocks until the completion
  channel delivers a value, and returns that value. The code leaves the loop by
  \<^verbatim>\<open>break\<close> as soon as the registry is empty and returns nil at once. With one signaler,
  whose channel is closed while the routine runs: \<^verbatim>\<open>Wait\<close> has returned nil with state
  Dead and without a receive, and the goroutine is still inside the routine. When the
  routine later fails, its error is sent and stays in the channel; \<^verbatim>\<open>Wait\<close> returned nil.
\<close>

theorem Wait_returns_when_registry_empties:
  "run (Start [7::nat]) [GoroutineStarts, SelectSignaler 0 ChannelClosed]
   = Some \<lparr>sm = \<lparr>signalers = [], state = Dead, cancelFunc = 0,
                 waitForIteratorDone = []\<rparr>,
           done_ctxs = [], contexts = 1, subCtx = 0, err = None,
           worker = InRoutine, waiting = Returned None, wait_trace = [SetState Dead],
           worker_trace = [NewContext 0, SetState Running, Invoke 0]\<rparr> \<and>
   run (Start [7::nat])
     [GoroutineStarts, SelectSignaler 0 ChannelClosed,
      RoutineReturns GracefulStop (Some ''failed''), SendCompletes]
   = Some \<lparr>sm = \<lparr>signalers = [], state = Dead, cancelFunc = 0,
                 waitForIteratorDone = [Some ''failed'']\<rparr>,
           done_ctxs = [], contexts = 1, subCtx = 0, err = Some ''failed'',
           worker = Ended, waiting = Returned None, wait_trace = [SetState Dead],
           worker_trace = [NewContext 0, SetState Running, Invoke 0, Send (Some ''failed'')]\<rparr>"
  by (simp add: run_defs)

section \<open>The goroutine of Start\<close>


















section \<open>Restart\<close>

text \<open>
  The restart branch of \<^verbatim>\<open>Wait\<close> sets the state to Restarting, cancels the context and
  goes on selecting. The goroutine makes a new context only in the branch
  \<^verbatim>\<open>case Restarting\<close> under \<^verbatim>\<open>case <-subCtx.Done()\<close>, which it reaches when the routine had
  returned \<^verbatim>\<open>GracefulContinue\<close> while the state was still Running. That branch makes a
  context that no one has cancelled and calls the routine with it; it does not write
  the state: the goroutine writes the state once, by \<^verbatim>\<open>s.setState(Running)\<close> before its
  loop, and never again.
\<close>

lemma step_restart:
  assumes "waiting sys = Selecting" and "i < length (signalers (sm sys))"
    and "f (sm sys) = GracefulRestart"
  shows "step sys (SelectSignaler i (Delivers (Some f)))
           = Some (call_cancelFunc ByWait (setState ByWait Restarting sys)) \<and>
         waiting (call_cancelFunc ByWait (setState ByWait Restarting sys)) = Selecting"
  using assms
  by (simp add: step_def reflect_Select_def buildSelectCases_def Wait_body_control wait_defs)

lemma context_done_Restarting:
  assumes "state (sm sys) = Restarting"
  shows "state (sm (context_done sys)) = Restarting \<and>
         subCtx (context_done sys) = contexts sys \<and>
         cancelFunc (sm (context_done sys)) = contexts sys \<and>
         contexts (context_done sys) = Suc (contexts sys) \<and>
         worker (context_done sys) = InRoutine \<and>
         waitForIteratorDone (sm (context_done sys)) = waitForIteratorDone (sm sys) \<and>
         worker_trace (context_done sys) = worker_trace sys
           @ [CancelCtx (cancelFunc (sm sys)), NewContext (contexts sys), Invoke (contexts sys)]"
  using assms by (simp add: worker_defs Let_def)

text \<open>
  The context made in that branch is new: it has not been cancelled, whatever was
  cancelled before.
\<close>

lemma Wait_body_ctx_inv:
  assumes "ctx_inv sys"
  shows "ctx_inv (Wait_body c r ok sys)"
proof (cases ok)
  case False
  show ?thesis
  proof (cases "removeSignaler (int c) (sm sys)")
    case None
    with False assms show ?thesis by (simp add: Wait_body_closed ctx_inv_def)
  next
    case (Some p)
    obtain b s' where p: "p = (b, s')" by (cases p)
    from Some p have "cancelFunc s' = cancelFunc (sm sys)"
      using removeSignaler_frame [of "int c" "sm sys" b s'] by simp
    with False Some p assms show ?thesis
      by (simp add: Wait_body_closed wait_defs ctx_inv_def)
  qed
next
  case True
  show ?thesis
  proof (cases r)
    case (IsSignalControl fo)
    show ?thesis
    proof (cases fo)
      case None
      with True IsSignalControl assms show ?thesis
        by (simp add: Wait_body_nil_func ctx_inv_def)
    next
      case (Some f)
      with True IsSignalControl assms show ?thesis
        by (cases "f (sm sys)") (simp_all add: Wait_body_control wait_defs ctx_inv_def)
    qed
  next
    case (IsError msg)
    with True assms show ?thesis by (simp add: Wait_body_error wait_defs ctx_inv_def)
  next
    case NilInterface
    with True assms show ?thesis by (simp add: Wait_body_nil)
  qed
qed

lemma ctx_inv_buffer:
  "ctx_inv (sys\<lparr>sm := (sm sys)\<lparr>waitForIteratorDone := b\<rparr>\<rparr>) = ctx_inv sys"
  by (simp add: ctx_inv_def)

lemma list_all_less_Suc: "list_all (\<lambda>c. c < n) xs \<Longrightarrow> list_all (\<lambda>c. c < Suc n) xs"
  by (induction xs) simp_all

lemma step_ctx_inv:
  assumes inv: "ctx_inv sys" and st: "step sys ev = Some sys'"
  shows "ctx_inv sys'"
proof (cases ev)
  case GoroutineStarts
  with st inv show ?thesis
    by (auto simp: step_def ctx_inv_def worker_defs split: if_splits)
next
  case (RoutineReturns a e)
  with st inv show ?thesis
    by (cases a) (auto simp: step_def ctx_inv_def worker_defs Let_def split: if_splits)
next
  case ContextDone
  with st inv show ?thesis
    by (cases "state (sm sys)")
       (auto simp: step_def ctx_inv_def worker_defs Let_def list_all_less_Suc split: if_splits)
next
  case SendCompletes
  with st inv show ?thesis
    by (auto simp: step_def ctx_inv_def worker_defs split: if_splits)
next
  case (SelectSignaler i d)
  with st inv show ?thesis
    using step_select_signaler [of sys i d sys'] by (cases d) (simp_all add: Wait_body_ctx_inv)
next
  case SelectDone
  with st obtain v rest where
    eq: "sys' = Wait_body (length (signalers (sm sys))) (interface_of_error v) True
                     (sys\<lparr>sm := (sm sys)\<lparr>waitForIteratorDone := rest\<rparr>\<rparr>)"
    using step_select_done [of sys sys'] by auto
  show ?thesis unfolding eq using inv by (intro Wait_body_ctx_inv) (simp add: ctx_inv_buffer)
next
  case RecvCompletes
  with st inv show ?thesis
    using step_recv [of sys sys'] by (auto simp: wait_defs ctx_inv_def)
qed

lemma run_ctx_inv:
  "ctx_inv sys \<Longrightarrow> run sys evs = Some sys' \<Longrightarrow> ctx_inv sys'"
proof (induction evs arbitrary: sys)
  case Nil
  then show ?case by simp
next
  case (Cons ev evs)
  from Cons.prems(2) obtain sys1 where s1: "step sys ev = Some sys1" and r: "run sys1 evs = Some sys'"
    by (auto split: option.splits)
  from step_ctx_inv [OF Cons.prems(1) s1] Cons.IH [OF _ r] show ?case by simp
qed

lemma ctx_inv_Start: "ctx_inv (Start sigs)"
  by (simp add: ctx_inv_def Start_def)

lemma restart_context_is_fresh:
  assumes reach: "run (Start sigs) evs = Some sys"
    and at: "worker sys = AwaitingDone" and dn: "subCtx sys \<in> set (done_ctxs sys)"
    and rs: "state (sm sys) = Restarting"
  shows "\<exists>sys'. step sys ContextDone = Some sys' \<and> worker sys' = InRoutine \<and>
           subCtx sys' = contexts sys \<and> subCtx sys' \<notin> set (done_ctxs sys') \<and>
           cancelFunc (sm sys') = subCtx sys' \<and>
           waitForIteratorDone (sm sys') = waitForIteratorDone (sm sys) \<and>
           state (sm sys') = Restarting"
proof -
  from run_ctx_inv [OF ctx_inv_Start reach]
  have old: "list_all (\<lambda>c. c < contexts sys) (done_ctxs sys)"
    and cur: "cancelFunc (sm sys) < contexts sys"
    by (simp_all add: ctx_inv_def)
  have st: "step sys ContextDone = Some (context_done sys)"
    using at dn by (simp add: step_def)
  have dc: "done_ctxs (context_done sys) = done_ctxs sys @ [cancelFunc (sm sys)]"
    using rs by (simp add: worker_defs Let_def)
  from old have "contexts sys \<notin> set (done_ctxs sys)"
    by (auto simp: list_all_iff)
  with cur have "contexts sys \<notin> set (done_ctxs (context_done sys))"
    unfolding dc by simp
  with st context_done_Restarting [OF rs] show ?thesis by simp
qed

text \<open>
  Claim C5 says that when the goroutine observes its context cancelled in the state
  Restarting, it replaces the context by a fresh one, calls the worker again, the state
  goes from Restarting back to Running, and nothing is sent to the wait loop. The code
  does the first, the second and the last, and leaves the state at Restarting (the comment
  on the constant \<^verbatim>\<open>Restarting\<close> says: when the goroutine re-enters, state will go back to
  Running). The routine returns \<^verbatim>\<open>(GracefulContinue, nil)\<close> while Running, a hangup signal
  is mapped to restart, the goroutine sees its context done: the routine runs again with
  context 1, the channel is empty, and the state is Restarting. When that second call
  returns \<^verbatim>\<open>(GracefulContinue, nil)\<close>, the goroutine therefore finds a state other than
  Running and leaves its loop.
\<close>

theorem state_stays_Restarting_after_restart:
  "run (Start [7::nat])
     [GoroutineStarts, RoutineReturns GracefulContinue None,
      SelectSignaler 0 (Delivers (Some (Signals_control commonSignals SIGHUP))), ContextDone]
   = Some \<lparr>sm = \<lparr>signalers = [7], state = Restarting, cancelFunc = 1,
                 waitForIteratorDone = []\<rparr>,
           done_ctxs = [0, 0], contexts = 2, subCtx = 1, err = None,
           worker = InRoutine, waiting = Selecting,
           wait_trace = [SetState Restarting, CancelCtx 0],
           worker_trace = [NewContext 0, SetState Running, Invoke 0,
                           CancelCtx 0, NewContext 1, Invoke 1]\<rparr> \<and>
   run (Start [7::nat])
     [GoroutineStarts, RoutineReturns GracefulContinue None,
      SelectSignaler 0 (Delivers (Some (Signals_control commonSignals SIGHUP))), ContextDone,
      RoutineReturns GracefulContinue None]
   = Some \<lparr>sm = \<lparr>signalers = [7], state = Restarting, cancelFunc = 1,
                 waitForIteratorDone = []\<rparr>,
           done_ctxs = [0, 0], contexts = 2, subCtx = 1, err = None,
           worker = Sending, waiting = Selecting,
           wait_trace = [SetState Restarting, CancelCtx 0],
           worker_trace = [NewContext 0, SetState Running, Invoke 0,
                           CancelCtx 0, NewContext 1, Invoke 1]\<rparr>"
  by (simp add: run_defs)

text \<open>
  Claim C6 says that a restart control function never makes \<^verbatim>\<open>Wait\<close> return and that the
  worker is called again with a fresh context. \<^verbatim>\<open>Wait\<close> indeed stays in its loop
  (\<open>step_restart\<close>). But \<^verbatim>\<open>Wait\<close> sets the state to Restarting before it cancels the
  context, so a routine that returns \<^verbatim>\<open>(GracefulContinue, nil)\<close> when it sees its context
  cancelled meets the guard \<^verbatim>\<open>if s.State() != Running\<close> of the goroutine, which ends the
  loop: the routine was called once, no second context was made, and the goroutine has
  sent nil and ended, while \<^verbatim>\<open>Wait\<close> is still selecting.
\<close>

theorem restart_ends_the_worker:
  "run (Start [7::nat])
     [GoroutineStarts,
      SelectSignaler 0 (Delivers (Some (Signals_control commonSignals SIGHUP))),
      RoutineReturns GracefulContinue None, SendCompletes]
   = Some \<lparr>sm = \<lparr>signalers = [7], state = Restarting, cancelFunc = 0,
                 waitForIteratorDone = [None]\<rparr>,
           done_ctxs = [0], contexts = 1, subCtx = 0, err = None,
           worker = Ended, waiting = Selecting,
           wait_trace = [SetState Restarting, CancelCtx 0],
           worker_trace = [NewContext 0, SetState Running, Invoke 0, Send None]\<rparr>"
  by (simp add: run_defs)

end
